theory Spec2Isabelle
  imports Main
begin

section \<open>Type keys\<close>

text \<open>
  The header \<^verbatim>\<open>svh/scope.hpp\<close> keys every settings entry by
  \<^verbatim>\<open>std::type_index{ typeid(std::decay_t<T>) }\<close>. The payload type \<open>T\<close> is a
  compile-time C++ type, so the types themselves are data here, with one term for each
  type:

  \<^item> \<open>TNamed s\<close> is a fundamental, enumeration or class type (or another scalar type that
    is not a pointer), \<open>s\<close> being the one name the type goes by;
  \<^item> \<open>TPointer p\<close> is the pointer to \<open>p\<close>;
  \<^item> \<open>TScalar c v b\<close> is \<open>b\<close> with its top-level qualifiers: \<open>c\<close> for \<^verbatim>\<open>const\<close>, \<open>v\<close>
    for \<^verbatim>\<open>volatile\<close>;
  \<^item> \<open>TArray e n\<close> is the array of \<open>n\<close> elements of type \<open>e\<close> (\<open>None\<close>: of unknown
    bound). An array has no qualifiers of its own: \<^verbatim>\<open>const\<close> applied to an array type
    is the array of \<^verbatim>\<open>const\<close> elements;
  \<^item> \<open>TFunction r ps\<close> is the type of the functions with return type \<open>r\<close> and parameter
    types \<open>ps\<close>. A parameter type is what the language makes of the declared one: without
    top-level qualifiers, a pointer in place of an array or a function. So a parameter is
    a \<open>base\<close> passed by value (\<open>PVal\<close>) or a reference (\<open>PLRef\<close>, \<open>PRRef\<close>), and
    \<^verbatim>\<open>void(const int)\<close> and \<^verbatim>\<open>void(int)\<close> are one term. A function type has no
    qualifiers. Function types that are variadic, \<^verbatim>\<open>noexcept\<close> or cv- or ref-qualified
    are left out;
  \<^item> \<open>TVal t\<close> is \<open>t\<close> itself, \<open>TLRef t\<close> is \<^verbatim>\<open>t&\<close> and \<open>TRRef t\<close> is \<^verbatim>\<open>t&&\<close>. A
    reference has no qualifiers, and there is no reference to a reference and no pointer
    to one.

  Some terms are not types of C++ (an array of functions, an array of no elements, a
  function that returns an array); the statements below hold for them as well.
\<close>

datatype base =
    TNamed string
  | TPointer nref
and nref =
    TScalar bool bool base
  | TArray nref "nat option"
  | TFunction cpp_type "param list"
and cpp_type =
    TVal nref
  | TLRef nref
  | TRRef nref
and param =
    PVal base
  | PLRef nref
  | PRRef nref

text \<open>
  The library operations the key is built from, as the C++ standard defines them
  (section meta.trans). \<^verbatim>\<open>std::remove_reference_t\<close>:
\<close>

fun remove_reference :: "cpp_type \<Rightarrow> cpp_type" where
  "remove_reference (TVal t) = TVal t"
| "remove_reference (TLRef t) = TVal t"
| "remove_reference (TRRef t) = TVal t"

text \<open>
  \<^verbatim>\<open>std::remove_cv_t\<close> drops the top-level qualifiers. Those of an array are the
  qualifiers of its elements; a reference and a function type have none.
\<close>

fun strip_cv :: "nref \<Rightarrow> nref" where
  "strip_cv (TScalar c v b) = TScalar False False b"
| "strip_cv (TArray e n) = TArray (strip_cv e) n"
| "strip_cv (TFunction r ps) = TFunction r ps"

fun remove_cv :: "cpp_type \<Rightarrow> cpp_type" where
  "remove_cv (TVal t) = TVal (strip_cv t)"
| "remove_cv (TLRef t) = TLRef t"
| "remove_cv (TRRef t) = TRRef t"

text \<open>\<^verbatim>\<open>std::add_pointer_t\<close> of a type that is not a reference: the unqualified pointer to it.\<close>

definition add_pointer :: "nref \<Rightarrow> cpp_type" where
  "add_pointer t = TVal (TScalar False False (TPointer t))"

text \<open>
  \<^verbatim>\<open>std::decay_t<T>\<close>: with \<open>U\<close> the type \<open>T\<close> without its reference, the pointer to the
  element type when \<open>U\<close> is an array (the element keeps its qualifiers), the pointer to
  \<open>U\<close> when \<open>U\<close> is a function type, and \<open>U\<close> without its top-level qualifiers otherwise.
\<close>

definition decay_t :: "cpp_type \<Rightarrow> cpp_type" where
  "decay_t t =
     (case remove_reference t of
        TVal (TArray e n) \<Rightarrow> add_pointer e
      | TVal (TFunction r ps) \<Rightarrow> add_pointer (TFunction r ps)
      | u \<Rightarrow> remove_cv u)"

text \<open>
  \<^verbatim>\<open>typeid(T)\<close> names \<open>T\<close> with a reference and the top-level qualifiers dropped
  (section expr.typeid). A \<^verbatim>\<open>std::type_index\<close> wraps that \<^verbatim>\<open>std::type_info\<close> and
  compares equal exactly when the two objects name the same type.
\<close>

datatype type_index = TypeIndex cpp_type

definition typeid_of :: "cpp_type \<Rightarrow> cpp_type" where
  "typeid_of t = remove_cv (remove_reference t)"

text \<open>\<^verbatim>\<open>scope::get_type_key<T>()\<close>, line 180.\<close>

definition get_type_key :: "cpp_type \<Rightarrow> type_index" where
  "get_type_key t = TypeIndex (typeid_of (decay_t t))"

text \<open>
  A type that \<^verbatim>\<open>std::decay_t\<close> leaves alone: not a reference, without a top-level
  qualifier, neither an array nor a function type.
\<close>

fun decayed :: "cpp_type \<Rightarrow> bool" where
  "decayed (TVal (TScalar c v b)) = (\<not> c \<and> \<not> v)"
| "decayed t = False"

text \<open>The unqualified type of name \<open>s\<close>.\<close>

definition plain :: "string \<Rightarrow> cpp_type" where
  "plain s = TVal (TScalar False False (TNamed s))"

section \<open>The store of scope objects\<close>

text \<open>
  A \<^verbatim>\<open>scope\<close> holds a raw pointer to its parent and a map from type keys to
  \<^verbatim>\<open>shared_ptr<scope>\<close>; entries are \<^verbatim>\<open>type_settings<T>\<close> objects, which derive
  from \<^verbatim>\<open>scope\<close>. Objects live in a store, addressed by their position in it. A new
  object is put at the end of the store, so its address is fresh. The store keeps an
  object that the program destroys (its owner's map was cleared) as an unreachable cell:
  reference counts of \<^verbatim>\<open>shared_ptr\<close> are not part of the model.

  \<open>dyn_type\<close> is the dynamic type of the object: \<open>None\<close> for a plain \<^verbatim>\<open>scope\<close>,
  \<open>Some T\<close> for a \<^verbatim>\<open>type_settings<T>\<close>. \<open>payload\<close> stands for the data members that
  a specialisation of \<^verbatim>\<open>type_settings<T>\<close> adds (the base value of the entry); these
  specialisations are written by the user of the header, so the value a default-constructed
  \<^verbatim>\<open>type_settings<T>\<close> carries is a parameter \<open>dflt T\<close> of the operations below.
\<close>

type_synonym addr = nat

record 'v scope =
  parent :: "addr option"
  children :: "type_index \<rightharpoonup> addr"
  dyn_type :: "cpp_type option"
  payload :: 'v

type_synonym 'v heap = "'v scope list"

text \<open>
  The first three errors are the \<^verbatim>\<open>std::runtime_error\<close>s the header throws
  ("No parent to pop to", "Type not found", "Existing child has unexpected type"). The
  other three are undefined behaviour that the code can run into: calling a member
  through a null pointer, using an address that holds no object, and decrementing
  \<^verbatim>\<open>INT_MIN\<close>.
\<close>

datatype error = NoParent | NotFound | TypeMismatch | NullDeref | Dangling | IntOverflow

definition lookup :: "'v heap \<Rightarrow> addr \<Rightarrow> 'v scope option" where
  "lookup h a = (if a < length h then Some (h ! a) else None)"

definition is_root :: "'v scope \<Rightarrow> bool" where
  "is_root nd = (parent nd = None)"

definition has_parent :: "'v scope \<Rightarrow> bool" where
  "has_parent nd = (parent nd \<noteq> None)"

text \<open>\<^verbatim>\<open>scope() = default\<close>: no parent, no entries.\<close>

definition new_scope :: "'v \<Rightarrow> 'v scope" where
  "new_scope v = \<lparr>parent = None, children = Map.empty, dyn_type = None, payload = v\<rparr>"

text \<open>\<^verbatim>\<open>type_settings<T>{}\<close>: a default-constructed entry for \<open>T\<close>.\<close>

definition type_settings :: "(cpp_type \<Rightarrow> 'v) \<Rightarrow> cpp_type \<Rightarrow> 'v scope" where
  "type_settings dflt t =
     \<lparr>parent = None, children = Map.empty, dyn_type = Some t, payload = dflt t\<rparr>"

text \<open>
  The implicit copy constructor of \<^verbatim>\<open>type_settings<T>\<close> copies every member of the
  source, the parent pointer and the map of entries included; the new object is a
  \<^verbatim>\<open>type_settings<T>\<close>.
\<close>

definition copy_construct :: "cpp_type \<Rightarrow> 'v scope \<Rightarrow> 'v scope" where
  "copy_construct t src =
     \<lparr>parent = parent src, children = children src, dyn_type = Some t, payload = payload src\<rparr>"

text \<open>
  The implicit assignment \<^verbatim>\<open>*found = rhs\<close> of \<^verbatim>\<open>type_settings<T>\<close> assigns the
  base class and every member. \<^verbatim>\<open>scope\<close> declares a destructor and no assignment
  operator, so its part is the implicit copy assignment of \<^verbatim>\<open>scope\<close>, which copies
  \<open>parent\<close> and \<open>children\<close> from \<open>rhs\<close>. The target keeps its address and its dynamic
  type.
\<close>

definition copy_assign :: "'v scope \<Rightarrow> 'v scope \<Rightarrow> 'v scope" where
  "copy_assign dst rhs =
     dst\<lparr>parent := parent rhs, children := children rhs, payload := payload rhs\<rparr>"

text \<open>
  \<^verbatim>\<open>dynamic_cast<type_settings<T>*>(p)\<close>: the pointer itself when the object is a
  \<^verbatim>\<open>type_settings<T>\<close>, the null pointer otherwise.
\<close>

definition dynamic_cast :: "'v heap \<Rightarrow> cpp_type \<Rightarrow> addr \<Rightarrow> error + addr option" where
  "dynamic_cast h t a =
     (case lookup h a of
        None \<Rightarrow> Inl Dangling
      | Some e \<Rightarrow> Inr (if dyn_type e = Some t then Some a else None))"

text \<open>
  \<^verbatim>\<open>children.emplace(key, std::move(child))\<close> on the object at \<open>this\<close>, for a child that
  \<^verbatim>\<open>std::make_unique\<close> has just created: the child gets the next address and the map of
  \<open>this\<close> takes it. \<^verbatim>\<open>emplace\<close> inserts nothing when the key is taken: the child is then
  destroyed and the reference to it dangles.
\<close>

definition emplace_child :: "'v heap \<Rightarrow> addr \<Rightarrow> type_index \<Rightarrow> 'v scope \<Rightarrow> addr \<times> 'v heap" where
  "emplace_child h this key child =
     (let nd = h ! this; c = length h in
      if children nd key = None
      then (c, h[this := nd\<lparr>children := (children nd)(key \<mapsto> c)\<rparr>] @ [child])
      else (c, h))"

text \<open>\<^verbatim>\<open>scope::emplace_new<T>()\<close>, lines 182 to 190.\<close>

definition emplace_new ::
  "(cpp_type \<Rightarrow> 'v) \<Rightarrow> 'v heap \<Rightarrow> cpp_type \<Rightarrow> addr \<Rightarrow> error + addr \<times> 'v heap" where
  "emplace_new dflt h t this =
     (case lookup h this of
        None \<Rightarrow> Inl Dangling
      | Some nd \<Rightarrow>
          let key = get_type_key t;
              child = (type_settings dflt t)\<lparr>parent := Some this\<rparr>
          in Inr (emplace_child h this key child))"

section \<open>The operations\<close>

text \<open>
  \<^verbatim>\<open>scope::find<T>() const\<close>, lines 140 to 155. It climbs the parent pointers, so on a
  store whose parent pointers form a cycle it need not return: \<open>None\<close> is "does not
  return".
\<close>

partial_function (option) find_scope ::
  "'v heap \<Rightarrow> cpp_type \<Rightarrow> addr \<Rightarrow> (error + addr option) option" where
  "find_scope h t this =
     (case lookup h this of
        None \<Rightarrow> Some (Inl Dangling)
      | Some nd \<Rightarrow>
          (case children nd (get_type_key t) of
             Some c \<Rightarrow>
               (case dynamic_cast h t c of
                  Inl e \<Rightarrow> Some (Inl e)
                | Inr None \<Rightarrow> Some (Inl TypeMismatch)
                | Inr (Some found) \<Rightarrow> Some (Inr (Some found)))
           | None \<Rightarrow>
               (case parent nd of
                  Some p \<Rightarrow> find_scope h t p
                | None \<Rightarrow> Some (Inr None))))"

text \<open>\<^verbatim>\<open>scope::push_default<T>()\<close>, lines 58 to 75.\<close>

definition push_default ::
  "(cpp_type \<Rightarrow> 'v) \<Rightarrow> 'v heap \<Rightarrow> cpp_type \<Rightarrow> addr \<Rightarrow> error + addr \<times> 'v heap" where
  "push_default dflt h t this =
     (case lookup h this of
        None \<Rightarrow> Inl Dangling
      | Some nd \<Rightarrow>
          (case children nd (get_type_key t) of
             Some c \<Rightarrow>
               (case dynamic_cast h t c of
                  Inl e \<Rightarrow> Inl e
                | Inr None \<Rightarrow> Inl TypeMismatch
                | Inr (Some found) \<Rightarrow>
                    Inr (found, h[found := copy_assign (h ! found) (type_settings dflt t)]))
           | None \<Rightarrow> emplace_new dflt h t this))"

text \<open>
  \<^verbatim>\<open>scope::pop(int count)\<close>, lines 82 to 91. \<open>count\<close> is a 32-bit \<^verbatim>\<open>int\<close>, here an
  integer that the recursion never takes below \<^verbatim>\<open>INT_MIN\<close>: \<^verbatim>\<open>--count\<close> at
  \<^verbatim>\<open>INT_MIN\<close> is a signed overflow, which is undefined. A call of \<^verbatim>\<open>parent->pop\<close>
  with a null \<^verbatim>\<open>parent\<close> is undefined as well. Since \<open>count\<close> goes down by one at each
  level and the recursion stops at 1 and at \<^verbatim>\<open>INT_MIN\<close>, \<open>pop\<close> returns on every store.
\<close>

definition INT_MIN :: int where
  "INT_MIN = - 2147483648"

function pop :: "'v heap \<Rightarrow> addr \<Rightarrow> int \<Rightarrow> error + addr" where
  "pop h this count =
     (case lookup h this of
        None \<Rightarrow> Inl Dangling
      | Some nd \<Rightarrow>
          if \<not> has_parent nd \<and> count = 1 then Inl NoParent
          else if count = 1 then (case parent nd of Some p \<Rightarrow> Inr p | None \<Rightarrow> Inl NullDeref)
          else (case parent nd of
                  None \<Rightarrow> Inl NullDeref
                | Some p \<Rightarrow> if count \<le> INT_MIN then Inl IntOverflow else pop h p (count - 1)))"
  by pat_completeness auto
termination
  by (relation "measure (\<lambda>(h, this, count). nat (count - INT_MIN))") auto

declare pop.simps [simp del]

text \<open>
  \<^verbatim>\<open>scope::_push<T>()\<close>, lines 193 to 222 (an Isabelle name cannot start with an
  underscore), and the public \<^verbatim>\<open>push<T>()\<close> that only calls it.
\<close>

definition u_push ::
  "(cpp_type \<Rightarrow> 'v) \<Rightarrow> 'v heap \<Rightarrow> cpp_type \<Rightarrow> addr \<Rightarrow> (error + addr \<times> 'v heap) option" where
  "u_push dflt h t this =
     (case lookup h this of
        None \<Rightarrow> Some (Inl Dangling)
      | Some nd \<Rightarrow>
          (case children nd (get_type_key t) of
             Some c \<Rightarrow>
               (case dynamic_cast h t c of
                  Inl e \<Rightarrow> Some (Inl e)
                | Inr None \<Rightarrow> Some (Inl TypeMismatch)
                | Inr (Some found) \<Rightarrow> Some (Inr (found, h)))
           | None \<Rightarrow>
               if has_parent nd then
                 (case find_scope h t this of
                    None \<Rightarrow> None
                  | Some (Inl e) \<Rightarrow> Some (Inl e)
                  | Some (Inr (Some found)) \<Rightarrow>
                      let child = (copy_construct t (h ! found))
                                    \<lparr>parent := Some this, children := Map.empty\<rparr>
                      in Some (Inr (emplace_child h this (get_type_key t) child))
                  | Some (Inr None) \<Rightarrow> Some (emplace_new dflt h t this))
               else Some (emplace_new dflt h t this)))"

definition push ::
  "(cpp_type \<Rightarrow> 'v) \<Rightarrow> 'v heap \<Rightarrow> cpp_type \<Rightarrow> addr \<Rightarrow> (error + addr \<times> 'v heap) option" where
  "push dflt h t this = u_push dflt h t this"

text \<open>
  The mutable \<^verbatim>\<open>scope::_get<T>()\<close>, lines 225 to 238, and the public \<^verbatim>\<open>get<T>()\<close>.
  \<open>auto_insert\<close> is the macro \<^verbatim>\<open>SVH_AUTO_INSERT\<close>, fixed when the program is built.
\<close>

definition u_get ::
  "bool \<Rightarrow> (cpp_type \<Rightarrow> 'v) \<Rightarrow> 'v heap \<Rightarrow> cpp_type \<Rightarrow> addr \<Rightarrow> (error + addr \<times> 'v heap) option" where
  "u_get auto_insert dflt h t this =
     (case find_scope h t this of
        None \<Rightarrow> None
      | Some (Inl e) \<Rightarrow> Some (Inl e)
      | Some (Inr (Some found)) \<Rightarrow> Some (Inr (found, h))
      | Some (Inr None) \<Rightarrow>
          (case lookup h this of
             None \<Rightarrow> Some (Inl Dangling)
           | Some nd \<Rightarrow>
               if is_root nd \<and> auto_insert then Some (emplace_new dflt h t this)
               else Some (Inl NotFound)))"

definition get ::
  "bool \<Rightarrow> (cpp_type \<Rightarrow> 'v) \<Rightarrow> 'v heap \<Rightarrow> cpp_type \<Rightarrow> addr \<Rightarrow> (error + addr \<times> 'v heap) option" where
  "get auto_insert dflt h t this = u_get auto_insert dflt h t this"

text \<open>The const \<^verbatim>\<open>scope::_get<T>()\<close>, lines 240 to 247: it never inserts.\<close>

definition u_get_const :: "'v heap \<Rightarrow> cpp_type \<Rightarrow> addr \<Rightarrow> (error + addr) option" where
  "u_get_const h t this =
     (case find_scope h t this of
        None \<Rightarrow> None
      | Some (Inl e) \<Rightarrow> Some (Inl e)
      | Some (Inr (Some found)) \<Rightarrow> Some (Inr found)
      | Some (Inr None) \<Rightarrow> Some (Inl NotFound))"

section \<open>Vocabulary of the specification\<close>

text \<open>\<open>depth h n d\<close>: the object at \<open>n\<close> has exactly \<open>d\<close> ancestors, the last one a root.\<close>

fun depth :: "'v heap \<Rightarrow> addr \<Rightarrow> nat \<Rightarrow> bool" where
  "depth h n 0 = (case lookup h n of None \<Rightarrow> False | Some nd \<Rightarrow> parent nd = None)"
| "depth h n (Suc d) =
     (case lookup h n of
        None \<Rightarrow> False
      | Some nd \<Rightarrow> (case parent nd of None \<Rightarrow> False | Some p \<Rightarrow> depth h p d))"

text \<open>\<open>ancestor h n k\<close>: the object \<open>k\<close> parent links above \<open>n\<close>, when there is one.\<close>

fun ancestor :: "'v heap \<Rightarrow> addr \<Rightarrow> nat \<Rightarrow> addr option" where
  "ancestor h n 0 = (if n < length h then Some n else None)"
| "ancestor h n (Suc k) =
     (case lookup h n of
        None \<Rightarrow> None
      | Some nd \<Rightarrow> (case parent nd of None \<Rightarrow> None | Some p \<Rightarrow> ancestor h p k))"

text \<open>
  \<open>chain_lacks h k n d\<close>: neither \<open>n\<close> nor any of its first \<open>d\<close> ancestors has an entry
  under the key \<open>k\<close>.
\<close>

fun chain_lacks :: "'v heap \<Rightarrow> type_index \<Rightarrow> addr \<Rightarrow> nat \<Rightarrow> bool" where
  "chain_lacks h k n 0 =
     (case lookup h n of None \<Rightarrow> False | Some nd \<Rightarrow> children nd k = None)"
| "chain_lacks h k n (Suc d) =
     (case lookup h n of
        None \<Rightarrow> False
      | Some nd \<Rightarrow>
          children nd k = None \<and>
          (case parent nd of None \<Rightarrow> True | Some p \<Rightarrow> chain_lacks h k p d))"

text \<open>
  \<open>nearest h k n c\<close>: going up from \<open>n\<close> (\<open>n\<close> itself first), the first object with an
  entry under the key \<open>k\<close> has the entry \<open>c\<close>.
\<close>

inductive nearest :: "'v heap \<Rightarrow> type_index \<Rightarrow> addr \<Rightarrow> addr \<Rightarrow> bool" where
  here: "lookup h n = Some nd \<Longrightarrow> children nd k = Some c \<Longrightarrow> nearest h k n c"
| up: "lookup h n = Some nd \<Longrightarrow> children nd k = None \<Longrightarrow> parent nd = Some p \<Longrightarrow>
       nearest h k p c \<Longrightarrow> nearest h k n c"

text \<open>\<open>holds_entry h n t c\<close>: the object at \<open>n\<close> has the entry \<open>c\<close> for \<open>t\<close>, a \<^verbatim>\<open>type_settings<t>\<close>.\<close>

definition holds_entry :: "'v heap \<Rightarrow> addr \<Rightarrow> cpp_type \<Rightarrow> addr \<Rightarrow> bool" where
  "holds_entry h n t c =
     (case lookup h n of
        None \<Rightarrow> False
      | Some nd \<Rightarrow>
          children nd (get_type_key t) = Some c \<and>
          (case lookup h c of None \<Rightarrow> False | Some e \<Rightarrow> dyn_type e = Some t))"

section \<open>Example stores\<close>

text \<open>
  Three payload types and the stores that the concrete statements below use. In \<open>h_chain\<close>
  the root holds the entry 1 for \<open>T\<close> (value 7), and that entry holds the entry 2 for
  \<open>U\<close>: the store after \<^verbatim>\<open>root.push<T, U>()\<close> and a change of the value of 1 to 7. In
  \<open>h_pair\<close> the root holds the entry 1 for \<open>T\<close> and nothing else.
\<close>

definition dflt_ex :: "cpp_type \<Rightarrow> int" where
  "dflt_ex t = 0"

definition tT :: cpp_type where
  "tT = plain ''T''"

definition tU :: cpp_type where
  "tU = plain ''U''"

definition tV :: cpp_type where
  "tV = plain ''V''"

definition h_root :: "int heap" where
  "h_root = [new_scope 0]"

definition h_pair :: "int heap" where
  "h_pair =
     [\<lparr>parent = None, children = [get_type_key tT \<mapsto> 1], dyn_type = None, payload = 0\<rparr>,
      \<lparr>parent = Some 0, children = Map.empty, dyn_type = Some tT, payload = 7\<rparr>]"

text \<open>\<open>h_pair\<close> after \<^verbatim>\<open>push<T>()\<close> on its entry 1.\<close>

definition h_pair_pushed :: "int heap" where
  "h_pair_pushed =
     [\<lparr>parent = None, children = [get_type_key tT \<mapsto> 1], dyn_type = None, payload = 0\<rparr>,
      \<lparr>parent = Some 0, children = [get_type_key tT \<mapsto> 2], dyn_type = Some tT, payload = 7\<rparr>,
      \<lparr>parent = Some 1, children = Map.empty, dyn_type = Some tT, payload = 7\<rparr>]"

definition h_chain :: "int heap" where
  "h_chain =
     [\<lparr>parent = None, children = [get_type_key tT \<mapsto> 1], dyn_type = None, payload = 0\<rparr>,
      \<lparr>parent = Some 0, children = [get_type_key tU \<mapsto> 2], dyn_type = Some tT, payload = 7\<rparr>,
      \<lparr>parent = Some 1, children = Map.empty, dyn_type = Some tU, payload = 0\<rparr>]"

section \<open>Basic facts\<close>

lemma lookup_Some: "lookup h a = Some nd \<longleftrightarrow> a < length h \<and> nd = h ! a"
  by (auto simp: lookup_def)

lemma lookup_None: "lookup h a = None \<longleftrightarrow> length h \<le> a"
  by (auto simp: lookup_def)

lemma decay_t_shape: "\<exists>b. decay_t t = TVal (TScalar False False b)"
proof (cases "remove_reference t")
  case (TVal x)
  then show ?thesis
    by (cases x) (simp_all add: decay_t_def add_pointer_def)
next
  case (TLRef x)
  then show ?thesis by (cases t) simp_all
next
  case (TRRef x)
  then show ?thesis by (cases t) simp_all
qed

text \<open>After \<^verbatim>\<open>std::decay_t\<close> there is nothing left for \<^verbatim>\<open>typeid\<close> to drop.\<close>

lemma typeid_of_decay_t: "typeid_of (decay_t t) = decay_t t"
proof -
  obtain b where "decay_t t = TVal (TScalar False False b)"
    using decay_t_shape by blast
  then show ?thesis by (simp add: typeid_of_def)
qed

lemma key_decay_t: "get_type_key t = TypeIndex (decay_t t)"
  by (simp add: get_type_key_def typeid_of_decay_t)

lemma decay_t_decayed: "decayed t \<Longrightarrow> decay_t t = t"
  by (cases t rule: decayed.cases) (simp_all add: decay_t_def)

lemma key_decayed: "decayed t \<Longrightarrow> get_type_key t = TypeIndex t"
  by (simp add: key_decay_t decay_t_decayed)

lemma decayed_plain: "decayed (plain s)"
  by (simp add: plain_def)

lemma keys_ex:
  "get_type_key tT = TypeIndex (TVal (TScalar False False (TNamed ''T'')))"
  "get_type_key tU = TypeIndex (TVal (TScalar False False (TNamed ''U'')))"
  "get_type_key tV = TypeIndex (TVal (TScalar False False (TNamed ''V'')))"
  using key_decayed [OF decayed_plain] by (simp_all add: tT_def tU_def tV_def plain_def)

lemma emplace_child_absent:
  "children (h ! this) key = None \<Longrightarrow>
   emplace_child h this key child =
     (length h,
      h[this := (h ! this)\<lparr>children := (children (h ! this))(key \<mapsto> length h)\<rparr>] @ [child])"
  by (simp add: emplace_child_def Let_def)

lemma emplace_new_absent:
  "lookup h this = Some nd \<Longrightarrow> children nd (get_type_key t) = None \<Longrightarrow>
   emplace_new dflt h t this =
     Inr (length h,
          h[this := nd\<lparr>children := (children nd)(get_type_key t \<mapsto> length h)\<rparr>]
            @ [\<lparr>parent = Some this, children = Map.empty, dyn_type = Some t, payload = dflt t\<rparr>])"
  by (auto simp: emplace_new_def emplace_child_def type_settings_def lookup_def Let_def
      split: if_splits)

lemma dynamic_cast_ok:
  "lookup h c = Some e \<Longrightarrow> dyn_type e = Some t \<Longrightarrow> dynamic_cast h t c = Inr (Some c)"
  by (simp add: dynamic_cast_def)

lemma depth_h_chain: "depth h_chain 2 2"
  by (simp add: numeral_2_eq_2 h_chain_def lookup_def)

text \<open>
  The example stores are stores of the program: \<open>h_pair\<close> is \<open>h_root\<close> after
  \<^verbatim>\<open>push<T>()\<close> on the root, with the value of the new entry set to 7, and \<open>h_chain\<close>
  is \<open>h_pair\<close> after \<^verbatim>\<open>push<U>()\<close> on that entry.
\<close>

lemma h_pair_reachable:
  "push dflt_ex h_root tT 0 = Some (Inr (1, h_pair[1 := (h_pair ! 1)\<lparr>payload := 0\<rparr>]))"
  by (simp add: push_def u_push_def emplace_new_def emplace_child_def type_settings_def
      has_parent_def lookup_def h_root_def new_scope_def h_pair_def dflt_ex_def Let_def)

lemma h_chain_reachable: "push dflt_ex h_pair tU 1 = Some (Inr (2, h_chain))"
  by (simp add: push_def u_push_def find_scope.simps emplace_new_def emplace_child_def
      type_settings_def has_parent_def lookup_def h_pair_def h_chain_def dflt_ex_def Let_def
      keys_ex numeral_2_eq_2)

section \<open>Type keys: identity\<close>

text \<open>
  C9 (as stated): distinct payload types have unequal keys. The key is taken of
  \<^verbatim>\<open>std::decay_t<T>\<close>, so \<^verbatim>\<open>const int\<close> and \<^verbatim>\<open>int\<close>, two distinct types, share
  one key.
\<close>

theorem type_key_not_injective:
  "get_type_key (TVal (TScalar True False (TNamed ''int''))) = get_type_key (plain ''int'')
   \<and> TVal (TScalar True False (TNamed ''int'')) \<noteq> plain ''int''"
  by (simp add: get_type_key_def typeid_of_def decay_t_def plain_def)

text \<open>
  C9 (amended): the key of \<open>T\<close> is the identity of \<^verbatim>\<open>std::decay_t<T>\<close>. Two payload
  types have equal keys exactly when \<^verbatim>\<open>std::decay_t\<close> maps them to the same type; the
  key is a function of the type, so the same type has the same key at every invocation.
  Hence two types that \<^verbatim>\<open>std::decay_t\<close> leaves alone have equal keys only when they are
  the same type. And a type shares its key with other types: \<^verbatim>\<open>T&\<close> and \<^verbatim>\<open>T&&\<close> with
  \<open>T\<close>; a type that is neither an array nor a function with each of its top-level
  \<^verbatim>\<open>const\<close>/\<^verbatim>\<open>volatile\<close> variants; an array with the pointer to its element type (the
  element keeps its qualifiers); a function type with the pointer to it.
\<close>

theorem type_key_is_decay:
  "(get_type_key t = get_type_key u \<longleftrightarrow> decay_t t = decay_t u)
   \<and> (decayed t \<and> decayed u \<longrightarrow> (get_type_key t = get_type_key u \<longleftrightarrow> t = u))
   \<and> get_type_key (TLRef x) = get_type_key (TVal x)
   \<and> get_type_key (TRRef x) = get_type_key (TVal x)
   \<and> get_type_key (TVal (TScalar c v b)) = get_type_key (TVal (TScalar False False b))
   \<and> get_type_key (TVal (TArray e n)) = get_type_key (TVal (TScalar False False (TPointer e)))
   \<and> get_type_key (TVal (TFunction r ps))
       = get_type_key (TVal (TScalar False False (TPointer (TFunction r ps))))"
proof (intro conjI)
  show "get_type_key t = get_type_key u \<longleftrightarrow> decay_t t = decay_t u"
    by (simp add: key_decay_t)
  show "decayed t \<and> decayed u \<longrightarrow> (get_type_key t = get_type_key u \<longleftrightarrow> t = u)"
    by (simp add: key_decayed)
  show "get_type_key (TLRef x) = get_type_key (TVal x)"
    by (simp add: key_decay_t decay_t_def)
  show "get_type_key (TRRef x) = get_type_key (TVal x)"
    by (simp add: key_decay_t decay_t_def)
  show "get_type_key (TVal (TScalar c v b)) = get_type_key (TVal (TScalar False False b))"
    by (simp add: key_decay_t decay_t_def)
  show "get_type_key (TVal (TArray e n))
      = get_type_key (TVal (TScalar False False (TPointer e)))"
    by (simp add: key_decay_t decay_t_def add_pointer_def)
  show "get_type_key (TVal (TFunction r ps))
      = get_type_key (TVal (TScalar False False (TPointer (TFunction r ps))))"
    by (simp add: key_decay_t decay_t_def add_pointer_def)
qed

text \<open>
  \<^verbatim>\<open>int\<close> and \<^verbatim>\<open>char*\<close> have unequal keys; \<^verbatim>\<open>const int&\<close> has the key of
  \<^verbatim>\<open>int\<close>; \<^verbatim>\<open>const int[3]\<close> has the key of \<^verbatim>\<open>const int*\<close>, which is not the key
  of \<^verbatim>\<open>int[3]\<close>.
\<close>

theorem type_key_is_decay_witness:
  "decayed (plain ''int'')
   \<and> decayed (TVal (TScalar False False (TPointer (TScalar False False (TNamed ''char'')))))
   \<and> get_type_key (plain ''int'')
       \<noteq> get_type_key (TVal (TScalar False False (TPointer (TScalar False False (TNamed ''char'')))))
   \<and> get_type_key (TLRef (TScalar True False (TNamed ''int''))) = get_type_key (plain ''int'')
   \<and> get_type_key (TVal (TArray (TScalar True False (TNamed ''int'')) (Some 3)))
       = get_type_key (TVal (TScalar False False (TPointer (TScalar True False (TNamed ''int'')))))
   \<and> get_type_key (TVal (TArray (TScalar True False (TNamed ''int'')) (Some 3)))
       \<noteq> get_type_key (TVal (TArray (TScalar False False (TNamed ''int'')) (Some 3)))"
proof -
  let ?int = "plain ''int''"
  let ?charp = "TVal (TScalar False False (TPointer (TScalar False False (TNamed ''char''))))"
  let ?cint = "TScalar True False (TNamed ''int'')"
  have d: "decayed ?int" "decayed ?charp" by (simp_all add: plain_def)
  have 1: "get_type_key ?int \<noteq> get_type_key ?charp"
    using d type_key_is_decay [of ?int ?charp, THEN conjunct2, THEN conjunct1]
    by (simp add: plain_def)
  have 2: "get_type_key (TLRef ?cint) = get_type_key ?int"
    using type_key_is_decay [of ?int ?int ?cint True False "TNamed ''int''"]
    by (simp add: plain_def)
  have 3: "get_type_key (TVal (TArray ?cint (Some 3)))
      = get_type_key (TVal (TScalar False False (TPointer ?cint)))"
    using type_key_is_decay [of ?int ?int ?cint True False "TNamed ''int''" ?cint "Some 3"]
    by simp
  have 4: "get_type_key (TVal (TArray ?cint (Some 3)))
      \<noteq> get_type_key (TVal (TArray (TScalar False False (TNamed ''int'')) (Some 3)))"
    using type_key_is_decay [of "TVal (TArray ?cint (Some 3))"
        "TVal (TArray (TScalar False False (TNamed ''int'')) (Some 3))", THEN conjunct1]
    by (simp add: decay_t_def add_pointer_def)
  show ?thesis using d 1 2 3 4 by simp
qed

section \<open>pop\<close>

lemma pop_root:
  "lookup h n = Some nd \<Longrightarrow> parent nd = None \<Longrightarrow>
   pop h n c = (if c = 1 then Inl NoParent else Inl NullDeref)"
  by (subst pop.simps) (simp add: has_parent_def)

lemma pop_one: "lookup h n = Some nd \<Longrightarrow> parent nd = Some p \<Longrightarrow> pop h n 1 = Inr p"
  by (subst pop.simps) (simp add: has_parent_def)

lemma pop_step:
  "lookup h n = Some nd \<Longrightarrow> parent nd = Some p \<Longrightarrow> c \<noteq> 1 \<Longrightarrow> INT_MIN < c \<Longrightarrow>
   pop h n c = pop h p (c - 1)"
  by (subst pop.simps) (simp add: has_parent_def)

lemma pop_overflow:
  "lookup h n = Some nd \<Longrightarrow> parent nd = Some p \<Longrightarrow> c \<le> INT_MIN \<Longrightarrow>
   pop h n c = Inl IntOverflow"
  by (subst pop.simps) (simp add: has_parent_def INT_MIN_def)

text \<open>Asking for one level more than there are ancestors throws.\<close>

lemma pop_no_parent: "depth h n d \<Longrightarrow> pop h n (int d + 1) = Inl NoParent"
proof (induction d arbitrary: n)
  case 0
  then show ?case by (auto simp: pop_root split: option.splits)
next
  case (Suc d)
  from Suc.prems obtain nd p where
    n: "lookup h n = Some nd" "parent nd = Some p" and p: "depth h p d"
    by (auto split: option.splits)
  have "pop h n (int (Suc d) + 1) = pop h p (int (Suc d) + 1 - 1)"
    using n by (intro pop_step) (simp_all add: INT_MIN_def)
  also have "int (Suc d) + 1 - 1 = int d + 1" by simp
  finally show ?case using Suc.IH [OF p] by simp
qed

text \<open>A count between 1 and the number of ancestors returns the ancestor that many levels up.\<close>

lemma pop_ancestor:
  "depth h n d \<Longrightarrow> 0 < k \<Longrightarrow> k \<le> d \<Longrightarrow>
   \<exists>a. ancestor h n k = Some a \<and> pop h n (int k) = Inr a"
proof (induction d arbitrary: n k)
  case 0
  then show ?case by simp
next
  case (Suc d)
  from Suc.prems obtain nd p where
    n: "lookup h n = Some nd" "parent nd = Some p" and p: "depth h p d"
    by (auto split: option.splits)
  obtain j where k: "k = Suc j" using Suc.prems by (cases k) auto
  show ?case
  proof (cases j)
    case 0
    have "p < length h" using p by (cases d) (auto simp: lookup_Some split: option.splits)
    then show ?thesis using n k 0 by (simp add: pop_one)
  next
    case (Suc i)
    have "pop h n (int k) = pop h p (int k - 1)"
      using n k Suc by (intro pop_step) (simp_all add: INT_MIN_def)
    also have "\<dots> = pop h p (int j)" using k by simp
    finally have "pop h n (int k) = pop h p (int j)" .
    moreover from Suc.IH [OF p, of j] Suc Suc.prems k
    obtain a where "ancestor h p j = Some a" "pop h p (int j) = Inr a" by auto
    ultimately show ?thesis using n k by simp
  qed
qed

lemma pop_never_no_parent:
  "depth h n d \<Longrightarrow> c \<noteq> int d + 1 \<Longrightarrow> pop h n c \<noteq> Inl NoParent"
proof (induction d arbitrary: n c)
  case 0
  then show ?case by (auto simp: pop_root split: option.splits)
next
  case (Suc d)
  from Suc.prems obtain nd p where
    n: "lookup h n = Some nd" "parent nd = Some p" and p: "depth h p d"
    by (auto split: option.splits)
  consider "c = 1" | "c \<le> INT_MIN" | "c \<noteq> 1" "INT_MIN < c" by linarith
  then show ?case
  proof cases
    case 1
    then show ?thesis using n by (simp add: pop_one)
  next
    case 2
    then show ?thesis using n by (simp add: pop_overflow)
  next
    case 3
    then have "pop h n c = pop h p (c - 1)" using n by (intro pop_step)
    moreover have "c - 1 \<noteq> int d + 1" using Suc.prems by simp
    ultimately show ?thesis using Suc.IH [OF p] by simp
  qed
qed

lemma pop_null_deref:
  "depth h n d \<Longrightarrow> c \<le> 0 \<or> int d + 1 < c \<Longrightarrow> int d \<le> c - INT_MIN \<Longrightarrow>
   pop h n c = Inl NullDeref"
proof (induction d arbitrary: n c)
  case 0
  then show ?case by (auto simp: pop_root split: option.splits)
next
  case (Suc d)
  from Suc.prems obtain nd p where
    n: "lookup h n = Some nd" "parent nd = Some p" and p: "depth h p d"
    by (auto split: option.splits)
  have "c \<noteq> 1" "INT_MIN < c" using Suc.prems by auto
  then have "pop h n c = pop h p (c - 1)" using n by (intro pop_step)
  moreover have "c - 1 \<le> 0 \<or> int d + 1 < c - 1" "int d \<le> c - 1 - INT_MIN"
    using Suc.prems by auto
  ultimately show ?case using Suc.IH [OF p] by simp
qed

lemma pop_undefined:
  "depth h n d \<Longrightarrow> c \<le> 0 \<or> int d + 1 < c \<Longrightarrow>
   pop h n c = Inl NullDeref \<or> pop h n c = Inl IntOverflow"
proof (induction d arbitrary: n c)
  case 0
  then show ?case by (auto simp: pop_root split: option.splits)
next
  case (Suc d)
  from Suc.prems obtain nd p where
    n: "lookup h n = Some nd" "parent nd = Some p" and p: "depth h p d"
    by (auto split: option.splits)
  have c1: "c \<noteq> 1" using Suc.prems by auto
  show ?case
  proof (cases "c \<le> INT_MIN")
    case True
    then show ?thesis using n by (simp add: pop_overflow)
  next
    case False
    then have "pop h n c = pop h p (c - 1)" using n c1 by (intro pop_step) simp_all
    moreover have "c - 1 \<le> 0 \<or> int d + 1 < c - 1" using Suc.prems by auto
    ultimately show ?thesis using Suc.IH [OF p] by simp
  qed
qed

text \<open>
  C2: \<^verbatim>\<open>pop(count)\<close> fails with \<open>NoParent\<close> whenever \<open>count\<close> exceeds the number of
  ancestors. The root has no ancestor and 2 exceeds 0, but \<^verbatim>\<open>pop(2)\<close> on the root does
  not throw: the guard on line 83 asks for \<^verbatim>\<open>count == 1\<close>, so line 90 calls
  \<^verbatim>\<open>pop\<close> through the null parent pointer. The same happens with \<^verbatim>\<open>pop(4)\<close> two
  levels below the root.
\<close>

theorem pop_past_root_null_deref:
  "pop h_root 0 2 = Inl NullDeref \<and> pop h_chain 2 4 = Inl NullDeref"
  by (simp add: pop.simps h_root_def h_chain_def new_scope_def lookup_def has_parent_def
      INT_MIN_def)

text \<open>
  C10: on an object with \<open>d\<close> ancestors, \<^verbatim>\<open>pop(0)\<close> and \<^verbatim>\<open>pop(count)\<close> with
  \<open>count > d + 1\<close> neither throw \<open>NoParent\<close> nor return an object: the call is undefined.
  It is the call through the root's null parent pointer whenever \<open>d \<le> count - INT_MIN\<close>,
  which is every \<open>count > d + 1\<close>, and \<open>count = 0\<close> on a chain of at most \<open>2^31\<close>
  ancestors (on a longer chain \<^verbatim>\<open>--count\<close> overflows on the way up). \<open>NoParent\<close> is
  thrown for \<open>count = d + 1\<close> only, when the root is reached with \<open>count = 1\<close>.
\<close>

theorem pop_out_of_range:
  assumes "depth h n d" and "count = 0 \<or> int d + 1 < count"
  shows "(pop h n count = Inl NullDeref \<or> pop h n count = Inl IntOverflow)
       \<and> (int d \<le> count - INT_MIN \<longrightarrow> pop h n count = Inl NullDeref)
       \<and> (\<forall>c. pop h n c = Inl NoParent \<longleftrightarrow> c = int d + 1)"
proof -
  have r: "count \<le> 0 \<or> int d + 1 < count" using assms(2) by auto
  have "pop h n count = Inl NullDeref \<or> pop h n count = Inl IntOverflow"
    using assms(1) r by (rule pop_undefined)
  moreover have "int d \<le> count - INT_MIN \<longrightarrow> pop h n count = Inl NullDeref"
    using pop_null_deref [OF assms(1) r] by simp
  moreover have "\<forall>c. pop h n c = Inl NoParent \<longleftrightarrow> c = int d + 1"
    using pop_no_parent [OF assms(1)] pop_never_no_parent [OF assms(1)] by auto
  ultimately show ?thesis by simp
qed

theorem pop_out_of_range_witness:
  "depth h_chain 2 2 \<and> pop h_chain 2 0 = Inl NullDeref \<and> pop h_chain 2 4 = Inl NullDeref
   \<and> pop h_chain 2 3 = Inl NoParent"
proof -
  have d: "depth h_chain 2 2"
    by (simp add: numeral_2_eq_2 h_chain_def lookup_def)
  show ?thesis
    using d pop_out_of_range [OF d, of 0] pop_out_of_range [OF d, of 4]
    by (simp add: INT_MIN_def)
qed

section \<open>find and get\<close>

text \<open>On a chain that ends in a root, \<open>find_scope\<close> returns.\<close>

lemma find_total: "depth h n d \<Longrightarrow> \<exists>r. find_scope h t n = Some r"
proof (induction d arbitrary: n)
  case 0
  then show ?case
    by (subst find_scope.simps) (auto split: option.splits sum.splits)
next
  case (Suc d)
  then show ?case
    by (subst find_scope.simps) (auto split: option.splits sum.splits)
qed

lemma find_absent:
  "depth h n d \<Longrightarrow> chain_lacks h (get_type_key t) n d \<Longrightarrow> find_scope h t n = Some (Inr None)"
proof (induction d arbitrary: n)
  case 0
  then show ?case
    by (subst find_scope.simps) (auto split: option.splits)
next
  case (Suc d)
  then show ?case
    by (subst find_scope.simps) (auto split: option.splits)
qed

text \<open>The entry that \<open>find_scope\<close> reaches is the nearest one, cast to the type asked for.\<close>

lemma find_nearest:
  "nearest h (get_type_key t) n c \<Longrightarrow>
   find_scope h t n =
     Some (case dynamic_cast h t c of
             Inl e \<Rightarrow> Inl e
           | Inr None \<Rightarrow> Inl TypeMismatch
           | Inr (Some found) \<Rightarrow> Inr (Some found))"
proof (induction h "get_type_key t" n c rule: nearest.induct)
  case (here h n nd c)
  then show ?case
    by (subst find_scope.simps) (simp split: sum.splits option.splits)
next
  case (up h n nd p c)
  then show ?case
    by (subst find_scope.simps) simp
qed

lemma lacks_everywhere:
  "depth h n d \<Longrightarrow> \<forall>a<length h. children (h ! a) k = None \<Longrightarrow> chain_lacks h k n d"
  by (induction d arbitrary: n) (auto simp: lookup_Some split: option.splits)

text \<open>
  C7: when no object of the store has an entry under the key of \<open>T\<close>, \<^verbatim>\<open>find<T>()\<close>
  returns the null pointer from every object whose parent chain ends in a root. It is a
  \<^verbatim>\<open>const\<close> member that writes nothing, so it returns a result and no store: the store
  after it is the store before it, and \<^verbatim>\<open>get<T>()\<close> with the policy disabled, called
  next on that store, throws \<open>NotFound\<close>.
\<close>

theorem find_never_inserts:
  assumes "depth h n d" and "\<forall>a<length h. children (h ! a) (get_type_key t) = None"
  shows "find_scope h t n = Some (Inr None) \<and> get False dflt h t n = Some (Inl NotFound)"
proof -
  have "chain_lacks h (get_type_key t) n d" using assms by (rule lacks_everywhere)
  with assms(1) have f: "find_scope h t n = Some (Inr None)" by (rule find_absent)
  have "lookup h n \<noteq> None" using assms(1) by (cases d) (auto split: option.splits)
  with f show ?thesis by (auto simp: get_def u_get_def)
qed

theorem find_never_inserts_witness:
  "depth h_chain 2 2 \<and> find_scope h_chain tV 2 = Some (Inr None)
   \<and> get False dflt_ex h_chain tV 2 = Some (Inl NotFound)"
proof -
  have a: "\<forall>a<length h_chain. children (h_chain ! a) (get_type_key tV) = None"
    by (simp add: h_chain_def keys_ex less_Suc_eq nth_Cons')
  show ?thesis
    using depth_h_chain find_never_inserts [OF depth_h_chain a, of dflt_ex] by simp
qed

text \<open>
  C6: on a root with no entry at all, the mutable \<^verbatim>\<open>get<T>()\<close> with the policy enabled
  returns a new entry: it is stored at the root under the key of \<open>T\<close>, its parent is the
  root, it has no entries of its own and its value is the default. With the policy
  disabled the call throws \<open>NotFound\<close>; a call that throws returns no store, since every
  \<^verbatim>\<open>throw\<close> of the header comes before the first write of its call, so the root is as
  it was.
\<close>

theorem get_on_empty_root:
  assumes "lookup h r = Some nd" and "parent nd = None" and "children nd = Map.empty"
  shows "get True dflt h t r =
           Some (Inr (length h,
             h[r := nd\<lparr>children := [get_type_key t \<mapsto> length h]\<rparr>]
               @ [\<lparr>parent = Some r, children = Map.empty, dyn_type = Some t,
                   payload = dflt t\<rparr>]))
       \<and> get False dflt h t r = Some (Inl NotFound)"
proof -
  have d: "depth h r 0" using assms by simp
  have l: "chain_lacks h (get_type_key t) r 0" using assms by simp
  have f: "find_scope h t r = Some (Inr None)" using d l by (rule find_absent)
  have k: "children nd (get_type_key t) = None" using assms(3) by simp
  show ?thesis
    using f assms emplace_new_absent [OF assms(1) k, of dflt]
    by (simp add: get_def u_get_def is_root_def)
qed

theorem get_on_empty_root_witness:
  "lookup h_root 0 = Some (new_scope 0)
   \<and> get True dflt_ex h_root tT 0 =
       Some (Inr (1,
         [\<lparr>parent = None, children = [get_type_key tT \<mapsto> 1], dyn_type = None, payload = 0\<rparr>,
          \<lparr>parent = Some 0, children = Map.empty, dyn_type = Some tT, payload = 0\<rparr>]))
   \<and> get False dflt_ex h_root tT 0 = Some (Inl NotFound)"
  using get_on_empty_root [of h_root 0 "new_scope 0" dflt_ex tT]
  by (simp add: h_root_def new_scope_def lookup_def dflt_ex_def)

text \<open>
  What the mutable \<^verbatim>\<open>get<T>()\<close> does when neither the starting object nor any of its
  \<open>d\<close> ancestors has an entry for \<open>T\<close>: it inserts the default entry only when the policy
  is enabled and the starting object is itself a root (\<open>d = 0\<close>), and throws \<open>NotFound\<close>
  in every other case. Line 233 tests \<^verbatim>\<open>is_root()\<close> on the starting object, not on
  the root that the search has reached.
\<close>

lemma get_miss_policy:
  assumes "depth h n d" and "chain_lacks h (get_type_key t) n d"
  shows "get auto_insert dflt h t n =
           (if auto_insert \<and> d = 0
            then Some (Inr (length h,
                   h[n := (h ! n)\<lparr>children := (children (h ! n))(get_type_key t \<mapsto> length h)\<rparr>]
                     @ [\<lparr>parent = Some n, children = Map.empty, dyn_type = Some t,
                         payload = dflt t\<rparr>]))
            else Some (Inl NotFound))"
proof -
  have f: "find_scope h t n = Some (Inr None)" using assms by (rule find_absent)
  show ?thesis
  proof (cases d)
    case 0
    with assms have n: "lookup h n = Some (h ! n)" "parent (h ! n) = None"
      "children (h ! n) (get_type_key t) = None"
      by (auto simp: lookup_Some split: option.splits)
    show ?thesis
      using f 0 n emplace_new_absent [OF n(1) n(3), of dflt]
      by (simp add: get_def u_get_def is_root_def)
  next
    case (Suc d')
    with assms(1) obtain nd p where "lookup h n = Some nd" "parent nd = Some p"
      by (auto split: option.splits)
    then show ?thesis using f Suc by (simp add: get_def u_get_def is_root_def)
  qed
qed

text \<open>
  C3: from every starting object, root or not, a miss on the whole chain succeeds exactly
  when the policy is enabled, and the default entry is then created at the root. The
  doc comment of \<^verbatim>\<open>get\<close> says the same (lines 93 to 99): "If not found, recurse to
  parent. If not found and at root, optionally insert a default one", and it names an
  exception for the disabled policy only. The code does not do it: in \<open>h_chain\<close> no object has an
  entry for \<open>V\<close>, the search from the object 2, two levels below the root, ends at the
  root without a result, and with the policy enabled \<^verbatim>\<open>get<V>()\<close> on 2 throws
  \<open>NotFound\<close>.
\<close>

theorem get_from_child_not_found:
  "depth h_chain 2 2
   \<and> find_scope h_chain tV 2 = Some (Inr None)
   \<and> get True dflt_ex h_chain tV 2 = Some (Inl NotFound)"
proof -
  have a: "chain_lacks h_chain (get_type_key tV) 2 2"
    by (simp add: numeral_2_eq_2 h_chain_def lookup_def keys_ex)
  have f: "find_scope h_chain tV 2 = Some (Inr None)"
    using depth_h_chain a by (rule find_absent)
  have "lookup h_chain 2 = Some (h_chain ! 2)" by (simp add: lookup_def h_chain_def)
  moreover have "\<not> is_root (h_chain ! 2)" by (simp add: is_root_def h_chain_def)
  ultimately show ?thesis using f depth_h_chain by (simp add: get_def u_get_def)
qed

section \<open>push\<close>

lemma push_existing:
  "holds_entry h this t c \<Longrightarrow> push dflt h t this = Some (Inr (c, h))"
  by (auto simp: holds_entry_def push_def u_push_def dynamic_cast_def split: option.splits)

lemma emplace_child_holds:
  assumes "this < length h" and "children (h ! this) (get_type_key t) = None"
    and "dyn_type child = Some t" and "emplace_child h this (get_type_key t) child = (c, h')"
  shows "holds_entry h' this t c"
  using assms
  by (auto simp: emplace_child_absent holds_entry_def lookup_def nth_append)

lemma emplace_new_holds:
  assumes "lookup h this = Some nd" and "children nd (get_type_key t) = None"
    and "emplace_new dflt h t this = Inr (c, h')"
  shows "holds_entry h' this t c"
  using assms emplace_new_absent [OF assms(1,2), of dflt]
  by (auto simp: holds_entry_def lookup_def nth_append split: if_splits)

text \<open>After a \<^verbatim>\<open>push<T>()\<close> that returned, the object holds the entry that was returned.\<close>

lemma push_holds:
  assumes "push dflt h t this = Some (Inr (c, h'))"
  shows "holds_entry h' this t c"
proof -
  from assms obtain nd where nd: "lookup h this = Some nd"
    by (auto simp: push_def u_push_def split: option.splits)
  then have tl: "this < length h" "nd = h ! this" by (simp_all add: lookup_Some)
  show ?thesis
  proof (cases "children nd (get_type_key t)")
    case (Some c0)
    with assms nd show ?thesis
      by (auto simp: push_def u_push_def holds_entry_def dynamic_cast_def
          split: option.splits if_splits)
  next
    case None
    have ch: "dyn_type ((copy_construct t x)\<lparr>parent := Some this, children := Map.empty\<rparr>)
        = Some t" for x :: "'a scope"
      by (simp add: copy_construct_def)
    from assms nd None tl show ?thesis
      by (auto simp: push_def u_push_def Let_def
          intro: emplace_new_holds emplace_child_holds [OF _ _ ch]
          split: option.splits sum.splits if_splits)
  qed
qed

text \<open>
  C8: on an object that holds an entry for \<open>T\<close>, \<^verbatim>\<open>push<T>()\<close> returns that entry and
  the store it was given: no object is created and nothing is reset. And after any
  \<^verbatim>\<open>push<T>()\<close> that returned, the object holds the returned entry, so the next
  \<^verbatim>\<open>push<T>()\<close> on it returns the same entry and leaves the store as the first call
  left it.
\<close>

theorem push_reuses_entry:
  "(holds_entry h this t c \<longrightarrow> push dflt h t this = Some (Inr (c, h)))
   \<and> (push dflt h t this = Some (Inr (c, h')) \<longrightarrow>
        holds_entry h' this t c \<and> push dflt h' t this = Some (Inr (c, h')))"
  using push_existing push_holds by blast

theorem push_reuses_entry_witness:
  "holds_entry h_chain 0 tT 1
   \<and> push dflt_ex h_chain tT 0 = Some (Inr (1, h_chain))
   \<and> push dflt_ex h_pair tU 1 = Some (Inr (2, h_chain))
   \<and> holds_entry h_chain 1 tU 2
   \<and> push dflt_ex h_chain tU 1 = Some (Inr (2, h_chain))"
proof -
  have e: "holds_entry h_chain 0 tT 1"
    by (simp add: holds_entry_def h_chain_def lookup_def)
  show ?thesis
    using e h_chain_reachable
      push_reuses_entry [of h_chain 0 tT 1 dflt_ex]
      push_reuses_entry [of h_pair 1 tU 2 dflt_ex h_chain]
    by simp
qed

text \<open>
  C4 (as stated): the push leaves the ancestor's entry and its nested entries unchanged.
  In \<open>h_pair\<close> the root holds the entry 1 for \<open>T\<close>; the object 1 is a child of the root
  and has no entry for \<open>T\<close> itself. \<^verbatim>\<open>push<T>()\<close> on 1 finds 1 at the root, copies it
  to the new object 2 and stores 2 in the map of 1: the entry of the ancestor has gained a
  nested entry.
\<close>

theorem push_changes_donor:
  "holds_entry h_pair 0 tT 1
   \<and> parent (h_pair ! 1) = Some 0
   \<and> children (h_pair ! 1) (get_type_key tT) = None
   \<and> push dflt_ex h_pair tT 1 = Some (Inr (2, h_pair_pushed))
   \<and> children (h_pair_pushed ! 1) (get_type_key tT) = Some 2"
  by (simp add: holds_entry_def push_def u_push_def find_scope.simps dynamic_cast_def
      emplace_child_def copy_construct_def has_parent_def lookup_def h_pair_def
      h_pair_pushed_def Let_def numeral_2_eq_2)

text \<open>
  C4 (amended): let the object \<open>this\<close> have a parent and no entry for \<open>T\<close>, and let \<open>f\<close>,
  a \<^verbatim>\<open>type_settings<T>\<close> with value \<open>payload e\<close>, be the entry for \<open>T\<close> of its nearest
  ancestor that has one. Then \<^verbatim>\<open>push<T>()\<close> returns a new object, stored in the map of
  \<open>this\<close>, with parent \<open>this\<close>, the value of \<open>f\<close> and no entries. Every object that existed
  before, other than \<open>this\<close>, is unchanged, and \<open>this\<close> changes only by the new entry in
  its map. Writing to the new object afterwards leaves the value of \<open>f\<close> as it was.
\<close>

theorem push_inherits_by_copy:
  assumes "lookup h this = Some nd"
    and "children nd (get_type_key t) = None"
    and "parent nd = Some p"
    and "nearest h (get_type_key t) p f"
    and "lookup h f = Some e"
    and "dyn_type e = Some t"
  shows "\<exists>h'. push dflt h t this = Some (Inr (length h, h'))
      \<and> length h' = Suc (length h)
      \<and> h' ! length h =
          \<lparr>parent = Some this, children = Map.empty, dyn_type = Some t, payload = payload e\<rparr>
      \<and> h' ! this = nd\<lparr>children := (children nd)(get_type_key t \<mapsto> length h)\<rparr>
      \<and> (\<forall>a<length h. a \<noteq> this \<longrightarrow> h' ! a = h ! a)
      \<and> (\<forall>x. payload (h'[length h := x] ! f) = payload e)"
proof -
  let ?k = "get_type_key t"
  let ?child =
    "\<lparr>parent = Some this, children = Map.empty, dyn_type = Some t, payload = payload e\<rparr>"
  let ?h' = "h[this := nd\<lparr>children := (children nd)(?k \<mapsto> length h)\<rparr>] @ [?child]"
  have tl: "this < length h" "nd = h ! this" using assms(1) by (simp_all add: lookup_Some)
  have f: "f < length h" "e = h ! f" using assms(5) by (simp_all add: lookup_Some)
  have "nearest h ?k this f" using assms(1-4) by (rule nearest.up)
  then have "find_scope h t this = Some (Inr (Some f))"
    using dynamic_cast_ok [OF assms(5,6)] by (simp add: find_nearest)
  moreover have "emplace_child h this ?k ?child = (length h, ?h')"
    using assms(2) tl by (simp add: emplace_child_absent)
  ultimately have r: "push dflt h t this = Some (Inr (length h, ?h'))"
    using assms(1-3) f
    by (simp add: push_def u_push_def has_parent_def copy_construct_def)
  have "length ?h' = Suc (length h)" by simp
  moreover have "?h' ! length h = ?child"
    by (simp add: nth_append)
  moreover have "?h' ! this = nd\<lparr>children := (children nd)(?k \<mapsto> length h)\<rparr>"
    using tl by (simp add: nth_append)
  moreover have "\<forall>a<length h. a \<noteq> this \<longrightarrow> ?h' ! a = h ! a"
    by (simp add: nth_append)
  moreover have "\<forall>x. payload (?h'[length h := x] ! f) = payload e"
    using f tl by (cases "f = this") (simp_all add: nth_append list_update_append)
  ultimately show ?thesis using r by blast
qed

theorem push_inherits_by_copy_witness:
  "nearest h_chain (get_type_key tT) 1 1
   \<and> (\<exists>h'. push dflt_ex h_chain tT 2 = Some (Inr (3, h'))
         \<and> h' ! 3 = \<lparr>parent = Some 2, children = Map.empty, dyn_type = Some tT, payload = 7\<rparr>
         \<and> h' ! 0 = h_chain ! 0 \<and> h' ! 1 = h_chain ! 1)"
proof -
  have l: "lookup h_chain 2 = Some (h_chain ! 2)" by (simp add: lookup_def h_chain_def)
  have c: "children (h_chain ! 2) (get_type_key tT) = None" by (simp add: h_chain_def)
  have p: "parent (h_chain ! 2) = Some 1" by (simp add: h_chain_def)
  have "nearest h_chain (get_type_key tT) 0 1"
    by (rule nearest.here [where nd = "h_chain ! 0"]) (simp_all add: lookup_def h_chain_def)
  then have n: "nearest h_chain (get_type_key tT) 1 1"
    by (rule nearest.up [where nd = "h_chain ! 1", rotated 3])
      (simp_all add: lookup_def h_chain_def keys_ex)
  have e: "lookup h_chain 1 = Some (h_chain ! 1)" by (simp add: lookup_def h_chain_def)
  have d: "dyn_type (h_chain ! 1) = Some tT" by (simp add: h_chain_def)
  have len: "length h_chain = 3" "payload (h_chain ! 1) = 7" by (simp_all add: h_chain_def)
  from push_inherits_by_copy [OF l c p n e d, of dflt_ex]
  obtain h' where "push dflt_ex h_chain tT 2 = Some (Inr (3, h'))"
    "h' ! 3 = \<lparr>parent = Some 2, children = Map.empty, dyn_type = Some tT, payload = 7\<rparr>"
    "\<forall>a<3. a \<noteq> 2 \<longrightarrow> h' ! a = h_chain ! a"
    unfolding len by blast
  then show ?thesis using n by auto
qed

section \<open>Resetting an entry\<close>

text \<open>
  C5: \<^verbatim>\<open>push_default<T>()\<close> looks at the map of its own object only. When the object
  holds an entry \<open>c\<close> for \<open>T\<close>, the call returns \<open>c\<close>, creates no object, and leaves every
  object other than \<open>c\<close> as it was (an ancestor's entry for \<open>T\<close> is another object); \<open>c\<close>
  has the default value and no entries afterwards. When the object has no entry for \<open>T\<close>,
  a new entry with the default value is created in its map, whatever its ancestors hold.
\<close>

theorem push_default_resets:
  assumes "lookup h this = Some nd"
  shows "(holds_entry h this t c \<longrightarrow>
           (\<exists>h'. push_default dflt h t this = Inr (c, h')
              \<and> length h' = length h
              \<and> payload (h' ! c) = dflt t
              \<and> children (h' ! c) = Map.empty
              \<and> dyn_type (h' ! c) = Some t
              \<and> (\<forall>a. a \<noteq> c \<longrightarrow> h' ! a = h ! a)))
       \<and> (children nd (get_type_key t) = None \<longrightarrow>
           (\<exists>h'. push_default dflt h t this = Inr (length h, h')
              \<and> length h' = Suc (length h)
              \<and> h' ! length h =
                  \<lparr>parent = Some this, children = Map.empty, dyn_type = Some t,
                   payload = dflt t\<rparr>
              \<and> h' ! this = nd\<lparr>children := (children nd)(get_type_key t \<mapsto> length h)\<rparr>
              \<and> (\<forall>a<length h. a \<noteq> this \<longrightarrow> h' ! a = h ! a)))"
proof (intro conjI impI)
  assume "holds_entry h this t c"
  then have c: "children nd (get_type_key t) = Some c" "c < length h" "dyn_type (h ! c) = Some t"
    using assms by (auto simp: holds_entry_def lookup_def split: option.splits if_splits)
  let ?h' = "h[c := copy_assign (h ! c) (type_settings dflt t)]"
  have "push_default dflt h t this = Inr (c, ?h')"
    using assms c by (simp add: push_default_def dynamic_cast_def lookup_def)
  moreover have "length ?h' = length h" by simp
  moreover have "payload (?h' ! c) = dflt t" "children (?h' ! c) = Map.empty"
    "dyn_type (?h' ! c) = Some t"
    using c by (simp_all add: copy_assign_def type_settings_def)
  moreover have "\<forall>a. a \<noteq> c \<longrightarrow> ?h' ! a = h ! a" by simp
  ultimately show "\<exists>h'. push_default dflt h t this = Inr (c, h')
      \<and> length h' = length h \<and> payload (h' ! c) = dflt t \<and> children (h' ! c) = Map.empty
      \<and> dyn_type (h' ! c) = Some t \<and> (\<forall>a. a \<noteq> c \<longrightarrow> h' ! a = h ! a)"
    by blast
next
  assume k: "children nd (get_type_key t) = None"
  let ?h' = "h[this := nd\<lparr>children := (children nd)(get_type_key t \<mapsto> length h)\<rparr>]
      @ [\<lparr>parent = Some this, children = Map.empty, dyn_type = Some t, payload = dflt t\<rparr>]"
  have tl: "this < length h" using assms by (simp add: lookup_Some)
  have "push_default dflt h t this = Inr (length h, ?h')"
    using assms k emplace_new_absent [OF assms k, of dflt] by (simp add: push_default_def)
  moreover have "length ?h' = Suc (length h)" by simp
  moreover have "?h' ! length h =
      \<lparr>parent = Some this, children = Map.empty, dyn_type = Some t, payload = dflt t\<rparr>"
    by (simp add: nth_append)
  moreover have "?h' ! this = nd\<lparr>children := (children nd)(get_type_key t \<mapsto> length h)\<rparr>"
    using tl by (simp add: nth_append)
  moreover have "\<forall>a<length h. a \<noteq> this \<longrightarrow> ?h' ! a = h ! a"
    by (simp add: nth_append)
  ultimately show "\<exists>h'. push_default dflt h t this = Inr (length h, h')
      \<and> length h' = Suc (length h)
      \<and> h' ! length h =
          \<lparr>parent = Some this, children = Map.empty, dyn_type = Some t, payload = dflt t\<rparr>
      \<and> h' ! this = nd\<lparr>children := (children nd)(get_type_key t \<mapsto> length h)\<rparr>
      \<and> (\<forall>a<length h. a \<noteq> this \<longrightarrow> h' ! a = h ! a)"
    by blast
qed

theorem push_default_resets_witness:
  "holds_entry h_chain 0 tT 1
   \<and> payload (h_chain ! 1) = 7 \<and> children (h_chain ! 1) (get_type_key tU) = Some 2
   \<and> (\<exists>h'. push_default dflt_ex h_chain tT 0 = Inr (1, h')
         \<and> payload (h' ! 1) = 0 \<and> children (h' ! 1) = Map.empty \<and> h' ! 0 = h_chain ! 0)
   \<and> children (h_chain ! 2) (get_type_key tT) = None
   \<and> (\<exists>h'. push_default dflt_ex h_chain tT 2 = Inr (3, h')
         \<and> payload (h' ! 3) = 0 \<and> parent (h' ! 3) = Some 2 \<and> h' ! 1 = h_chain ! 1)"
proof -
  have l0: "lookup h_chain 0 = Some (h_chain ! 0)" by (simp add: lookup_def h_chain_def)
  have l2: "lookup h_chain 2 = Some (h_chain ! 2)" by (simp add: lookup_def h_chain_def)
  have e: "holds_entry h_chain 0 tT 1"
    by (simp add: holds_entry_def h_chain_def lookup_def)
  have k: "children (h_chain ! 2) (get_type_key tT) = None" by (simp add: h_chain_def)
  have v: "payload (h_chain ! 1) = 7" "children (h_chain ! 1) (get_type_key tU) = Some 2"
    "length h_chain = 3"
    by (simp_all add: h_chain_def)
  from push_default_resets [OF l0, of tT 1 dflt_ex] e
  obtain h1 where "push_default dflt_ex h_chain tT 0 = Inr (1, h1)"
    "payload (h1 ! 1) = 0" "children (h1 ! 1) = Map.empty"
    "\<forall>a. a \<noteq> 1 \<longrightarrow> h1 ! a = h_chain ! a"
    unfolding dflt_ex_def by blast
  moreover from push_default_resets [OF l2, of tT 1 dflt_ex] k
  obtain h2 where "push_default dflt_ex h_chain tT 2 = Inr (3, h2)"
    "h2 ! 3 = \<lparr>parent = Some 2, children = Map.empty, dyn_type = Some tT, payload = 0\<rparr>"
    "\<forall>a<3. a \<noteq> 2 \<longrightarrow> h2 ! a = h_chain ! a"
    unfolding dflt_ex_def v by blast
  ultimately show ?thesis using e k v by auto
qed

section \<open>Parent links\<close>

text \<open>\<^verbatim>\<open>push\<close> and \<^verbatim>\<open>get\<close> leave the parent link of every existing object alone.\<close>

lemma emplace_child_parents:
  "emplace_child h this k child = (c, h') \<Longrightarrow> a < length h \<Longrightarrow>
   parent (h' ! a) = parent (h ! a)"
  by (cases "a = this") (auto simp: emplace_child_def Let_def nth_append split: if_splits)

lemma emplace_new_parents:
  "emplace_new dflt h t this = Inr (c, h') \<Longrightarrow> a < length h \<Longrightarrow>
   parent (h' ! a) = parent (h ! a)"
  by (auto simp: emplace_new_def Let_def dest: emplace_child_parents split: option.splits)

lemma push_keeps_parents:
  assumes "push dflt h t this = Some (Inr (c, h'))" and "a < length h"
  shows "parent (h' ! a) = parent (h ! a)"
  using assms
  by (auto simp: push_def u_push_def Let_def
      dest: emplace_child_parents emplace_new_parents
      split: option.splits sum.splits if_splits)

lemma get_keeps_parents:
  assumes "get auto_insert dflt h t this = Some (Inr (c, h'))" and "a < length h"
  shows "parent (h' ! a) = parent (h ! a)"
  using assms
  by (auto simp: get_def u_get_def dest: emplace_new_parents
      split: option.splits sum.splits if_splits)

text \<open>
  \<^verbatim>\<open>push_default\<close> does not: the reset on line 69 assigns a default-constructed entry,
  whose parent pointer is null, to the entry it found, and the assignment copies the
  parent pointer with the rest.
\<close>

lemma push_default_existing_parent:
  assumes "holds_entry h this t c"
  shows "\<exists>h'. push_default dflt h t this = Inr (c, h') \<and> parent (h' ! c) = None"
  using assms
  by (auto simp: holds_entry_def push_default_def dynamic_cast_def copy_assign_def
      type_settings_def lookup_def split: option.splits if_splits)

text \<open>
  C1: the parent link of an object never changes after its construction; in particular
  the entry for \<open>T\<close> still refers to its owner after \<^verbatim>\<open>push_default<T>()\<close> on an owner
  that already holds it. In \<open>h_pair\<close> the root 0 holds the entry 1 for \<open>T\<close>, and the
  parent of 1 is 0. After \<^verbatim>\<open>push_default<T>()\<close> on the root the parent of 1 is null.
\<close>

theorem push_default_drops_parent:
  "holds_entry h_pair 0 tT 1
   \<and> map parent h_pair = [None, Some 0]
   \<and> map_sum id (map_prod id (map parent)) (push_default dflt_ex h_pair tT 0)
       = Inr (1, [None, None])"
  by (simp add: holds_entry_def push_default_def dynamic_cast_def copy_assign_def
      type_settings_def lookup_def h_pair_def)

end
